theory Spec2Isabelle
  imports Main
begin

unbundle bit_operations_syntax

section \<open>Stack range tracking and canary detection of pwndbg\<close>

text \<open>
  A shallow embedding of \<^verbatim>\<open>pwndbg/gdblib/stack.py\<close> and
  \<^verbatim>\<open>pwndbg/commands/canary.py\<close>. Python integers are unbounded, so addresses and
  register values are \<^typ>\<open>int\<close>. The module globals \<^verbatim>\<open>stacks\<close> and \<^verbatim>\<open>nx\<close>
  and the host debugger's selected thread form an explicit state that every operation
  takes and returns. The collaborators the two modules call (registers, memory, ELF
  headers, auxiliary vector, pattern search) are fields of an environment record.
  Exceptions are values of the type \<open>error\<close>. Each definition describes one run of the
  body of the Python function of the same name; the memo that the decorator
  \<^verbatim>\<open>cache_until("stop")\<close> puts in front of \<^verbatim>\<open>update\<close> is the function \<open>cached_update\<close>.
\<close>

subsection \<open>Data model\<close>

datatype error = MemoryError | AttributeError | TypeError | GdbError

text \<open>A gdb thread is identified by its \<^verbatim>\<open>ptid\<close>, the triple (pid, lwp, tid).\<close>

type_synonym ptid = "int \<times> int \<times> int"

text \<open>
  \<^verbatim>\<open>pwndbg.lib.memory.Page(start, size, flags, offset, objfile)\<close> stores its arguments in
  the attributes \<^verbatim>\<open>vaddr\<close>, \<^verbatim>\<open>memsz\<close>, \<^verbatim>\<open>flags\<close>, \<^verbatim>\<open>offset\<close> and \<^verbatim>\<open>objfile\<close>; the last one
  may be \<^verbatim>\<open>None\<close>.
\<close>

record Page =
  vaddr :: int
  memsz :: int
  flags :: int
  offset :: int
  objfile :: "string option"

text \<open>
  Modelled from the spec: the properties \<^verbatim>\<open>start\<close> and \<^verbatim>\<open>end\<close> and the containment test
  \<^verbatim>\<open>address in page\<close> of the class \<^verbatim>\<open>Page\<close>, which lives in \<^verbatim>\<open>pwndbg/lib/memory.py\<close>:
  a Page is the range \<open>{start, size, ...}\<close> and \<open>start \<le> addr < start + size\<close> defines
  containment.
\<close>

definition page_start :: "Page \<Rightarrow> int" where
  "page_start p = vaddr p"

definition page_end :: "Page \<Rightarrow> int" where
  "page_end p = vaddr p + memsz p"

definition page_contains :: "Page \<Rightarrow> int \<Rightarrow> bool" where
  "page_contains p a \<longleftrightarrow> page_start p \<le> a \<and> a < page_end p"

text \<open>Two Pages overlap when some address lies in both.\<close>

definition pages_overlap :: "Page \<Rightarrow> Page \<Rightarrow> bool" where
  "pages_overlap p q \<longleftrightarrow> max (page_start p) (page_start q) < min (page_end p) (page_end q)"

record phdr =
  p_type :: int

text \<open>
  The environment: what the host debugger and the other pwndbg modules answer.
  \<^item> \<open>threads\<close>: \<^verbatim>\<open>gdb.selected_inferior().threads()\<close>;
  \<^item> \<open>sp_of\<close>: the value of \<^verbatim>\<open>pwndbg.gdblib.regs.sp\<close> while the given thread is selected
    (\<open>None\<close> when the register is unavailable);
  \<^item> \<open>linux\<close>: \<^verbatim>\<open>pwndbg.gdblib.abi.linux\<close>;
  \<^item> \<open>mapped\<close>: whether an address is backed by readable memory;
  \<^item> \<open>phdrs\<close>: \<^verbatim>\<open>pwndbg.gdblib.elf.iter_phdrs(pwndbg.gdblib.elf.exe())\<close>;
  \<^item> \<open>vmmap_find\<close>: \<^verbatim>\<open>pwndbg.gdblib.vmmap.find\<close>;
  \<^item> \<open>mem_u\<close>: \<^verbatim>\<open>pwndbg.gdblib.memory.u\<close>; \<open>pvoid\<close>: \<^verbatim>\<open>pwndbg.gdblib.memory.pvoid\<close>;
  \<^item> \<open>ptrsize\<close>: \<^verbatim>\<open>pwndbg.gdblib.arch.ptrsize\<close>;
  \<^item> \<open>auxv\<close>: \<^verbatim>\<open>pwndbg.auxv.get()\<close>;
  \<^item> \<open>pack\<close>: \<^verbatim>\<open>pwndbg.gdblib.arch.pack\<close>; \<open>search\<close>: \<^verbatim>\<open>pwndbg.search.search\<close>, as the
    list of its matches.
\<close>

record env =
  threads :: "ptid list"
  sp_of :: "ptid \<Rightarrow> error + int option"
  linux :: bool
  mapped :: "int \<Rightarrow> bool"
  phdrs :: "error + phdr list"
  vmmap_find :: "int option \<Rightarrow> Page option"
  mem_u :: "int \<Rightarrow> error + int"
  pvoid :: "int \<Rightarrow> error + int"
  ptrsize :: int
  auxv :: "string \<rightharpoonup> int"
  pack :: "int \<Rightarrow> nat list"
  search :: "nat list \<Rightarrow> int \<Rightarrow> int \<Rightarrow> int list"

text \<open>
  The state: the dictionary \<^verbatim>\<open>stacks\<close> in insertion order, the flag \<^verbatim>\<open>nx\<close>, the
  thread the host debugger has selected (\<^verbatim>\<open>gdb.selected_thread()\<close>), and whether the memo
  of \<^verbatim>\<open>update\<close> holds a result.
\<close>

record state =
  stacks :: "(ptid \<times> Page) list"
  nx :: bool
  selected :: "ptid option"
  update_cached :: bool

text \<open>\<^verbatim>\<open>stacks[k] = v\<close>: an existing key keeps its position, a new key goes last.\<close>

fun dict_set :: "('k \<times> 'v) list \<Rightarrow> 'k \<Rightarrow> 'v \<Rightarrow> ('k \<times> 'v) list" where
  "dict_set [] k v = [(k, v)]"
| "dict_set ((k', v') # kvs) k v =
     (if k' = k then (k, v) # kvs else (k', v') # dict_set kvs k v)"

text \<open>\<^verbatim>\<open>stacks.get(k, None)\<close>.\<close>

definition dict_get :: "('k \<times> 'v) list \<Rightarrow> 'k \<Rightarrow> 'v option" where
  "dict_get kvs k = map_of kvs k"

text \<open>\<^verbatim>\<open>stacks.values()\<close>.\<close>

definition dict_values :: "('k \<times> 'v) list \<Rightarrow> 'v list" where
  "dict_values kvs = map snd kvs"

subsection \<open>Architecture constants\<close>

text \<open>
  Modelled from the spec: \<^verbatim>\<open>pwndbg.gdblib.memory.PAGE_SIZE\<close> and
  \<^verbatim>\<open>pwndbg.lib.memory.page_align\<close>, which are not part of the two modules. A page is
  \<open>0x1000\<close> bytes, as the literals of \<^verbatim>\<open>update\<close> have it, and aligning rounds down to a
  page boundary.
\<close>

definition PAGE_SIZE :: int where
  "PAGE_SIZE = 0x1000"

definition page_align :: "int \<Rightarrow> int" where
  "page_align a = a AND NOT (PAGE_SIZE - 1)"

text \<open>
  Modelled from the spec: \<^verbatim>\<open>pwndbg.gdblib.arch.ptrmask\<close>, the architecture's
  pointer-width mask: all ones over the \<open>8 * ptrsize\<close> bits of a pointer.
\<close>

definition ptrmask :: "env \<Rightarrow> int" where
  "ptrmask e = 2 ^ (8 * nat (ptrsize e)) - 1"

subsection \<open>The canary value\<close>

definition canary_value :: "env \<Rightarrow> error + (int option \<times> int option)" where
  "canary_value e =
     (case auxv e ''AT_RANDOM'' of
        None \<Rightarrow> Inr (None, None)
      | Some at_random \<Rightarrow>
          (case pvoid e at_random of
             Inl err \<Rightarrow> Inl err
           | Inr global_canary \<Rightarrow>
               Inr (Some (global_canary AND (ptrmask e XOR 0xFF)), Some at_random)))"

subsection \<open>The stack range tracker\<close>

text \<open>
  Modelled from the spec: \<^verbatim>\<open>pwndbg.gdblib.memory.find_upper_boundary\<close>, which is not
  part of the two modules: probe forward one page at a time, bounded by \<open>max_pages\<close>,
  using the predicate that says whether an address is backed by valid memory; return the
  start of the first unmapped page, or the last probed boundary when \<open>max_pages\<close> are
  exhausted while still mapped.
\<close>

fun find_upper_boundary :: "(int \<Rightarrow> bool) \<Rightarrow> int \<Rightarrow> nat \<Rightarrow> int" where
  "find_upper_boundary is_mapped addr 0 = addr"
| "find_upper_boundary is_mapped addr (Suc n) =
     (if is_mapped addr then find_upper_boundary is_mapped (addr + PAGE_SIZE) n else addr)"

definition find_upper_stack_boundary :: "env \<Rightarrow> int \<Rightarrow> nat \<Rightarrow> int" where
  "find_upper_stack_boundary e stack_ptr max_pages =
     (let stack_ptr = page_align stack_ptr in
      if \<not> linux e then stack_ptr + PAGE_SIZE
      else find_upper_boundary (mapped e) stack_ptr max_pages)"

definition PT_GNU_STACK :: int where
  "PT_GNU_STACK = 0x6474E551"

text \<open>The loop of \<^verbatim>\<open>is_executable\<close> over the program headers, on the flag \<^verbatim>\<open>nx\<close>.\<close>

fun scan_phdrs :: "phdr list \<Rightarrow> bool \<Rightarrow> bool" where
  "scan_phdrs [] nxf = nxf"
| "scan_phdrs (ph # phs) nxf =
     scan_phdrs phs (if p_type ph = PT_GNU_STACK then True else nxf)"

definition is_executable :: "env \<Rightarrow> state \<Rightarrow> (error + bool) \<times> state" where
  "is_executable e s =
     (let s = s\<lparr>nx := False\<rparr> in
      case phdrs e of
        Inl err \<Rightarrow> (Inl err, s)
      | Inr hs \<Rightarrow>
          (let s = s\<lparr>nx := scan_phdrs hs (nx s)\<rparr> in (Inr (\<not> nx s), s)))"

text \<open>\<^verbatim>\<open>"%i" % n\<close>: the decimal representation of an integer.\<close>

definition digit_char :: "nat \<Rightarrow> char" where
  "digit_char d = ''0123456789'' ! d"

function digits :: "nat \<Rightarrow> string" where
  "digits n = (if n < 10 then [digit_char n] else digits (n div 10) @ [digit_char (n mod 10)])"
  by pat_completeness auto
termination
  by (relation "measure id") auto

definition format_int :: "int \<Rightarrow> string" where
  "format_int i = (if i < 0 then ''-'' @ digits (nat (- i)) else digits (nat i))"

text \<open>\<^verbatim>\<open>pwndbg.gdblib.regs.sp\<close>: the stack pointer of the selected thread.\<close>

definition regs_sp :: "env \<Rightarrow> state \<Rightarrow> error + int option" where
  "regs_sp e s = (case selected s of None \<Rightarrow> Inr None | Some t \<Rightarrow> sp_of e t)"

text \<open>
  One iteration of the loop of \<^verbatim>\<open>update\<close>, for the thread \<open>thread\<close>. The first
  component of the result is the exception that interrupts the loop, if any.
  \<^verbatim>\<open>thread.switch()\<close> is applied to a thread the host has just listed and selects it.
  A Page is a mutable object held by the dictionary, so assigning to its attributes is
  storing the changed Page under the same key.
\<close>

definition update_thread :: "env \<Rightarrow> ptid \<Rightarrow> state \<Rightarrow> error option \<times> state" where
  "update_thread e thread s =
     (let s = s\<lparr>selected := Some thread\<rparr> in
      case regs_sp e s of
        Inl err \<Rightarrow> (Some err, s)
      | Inr None \<Rightarrow> (None, s)
      | Inr (Some sp) \<Rightarrow>
          if sp = 0 then (None, s)
          else
            (let sp_low = (sp AND NOT 0xFFF) - 0x1000 in
             case dict_get (stacks s) thread of
               None \<Rightarrow>
                 (let start = sp_low;
                      stop = find_upper_stack_boundary e sp 1024
                  in case is_executable e s of
                       (Inl err, s) \<Rightarrow> (Some err, s)
                     | (Inr ex, s) \<Rightarrow>
                         (let page = \<lparr>vaddr = start, memsz = stop - start,
                                      flags = (if \<not> ex then 6 else 7), offset = 0,
                                      objfile = Some ''[stack]''\<rparr>
                          in (None, s\<lparr>stacks := dict_set (stacks s) thread page\<rparr>)))
             | Some page \<Rightarrow>
                 (let page =
                        (if objfile page = None then
                           (case thread of (pid, tid, _) \<Rightarrow>
                              if pid = tid then page\<lparr>objfile := Some ''[stack]''\<rparr>
                              else page\<lparr>objfile := Some (''[stack:'' @ format_int tid @ '']'')\<rparr>)
                         else page);
                      low = min (vaddr page) sp_low;
                      page =
                        (if low \<noteq> vaddr page
                         then page\<lparr>memsz := memsz page + (vaddr page - low), vaddr := low\<rparr>
                         else page)
                  in (None, s\<lparr>stacks := dict_set (stacks s) thread page\<rparr>))))"

text \<open>The \<^verbatim>\<open>for\<close> loop of \<^verbatim>\<open>update\<close>: it stops at the first exception.\<close>

fun update_threads :: "env \<Rightarrow> ptid list \<Rightarrow> state \<Rightarrow> error option \<times> state" where
  "update_threads e [] s = (None, s)"
| "update_threads e (thread # rest) s =
     (case update_thread e thread s of
        (Some err, s') \<Rightarrow> (Some err, s')
      | (None, s') \<Rightarrow> update_threads e rest s')"

text \<open>
  \<^verbatim>\<open>update\<close>: the loop runs inside \<^verbatim>\<open>try\<close>; the \<^verbatim>\<open>finally\<close> block switches back to
  \<^verbatim>\<open>curr_thread\<close> when there is one, whether or not the loop raised.
\<close>

definition update :: "env \<Rightarrow> state \<Rightarrow> error option \<times> state" where
  "update e s =
     (let curr_thread = selected s in
      case update_threads e (threads e) s of
        (r, s') \<Rightarrow>
          (case curr_thread of
             Some c \<Rightarrow> (r, s'\<lparr>selected := Some c\<rparr>)
           | None \<Rightarrow> (r, s')))"

text \<open>
  Modelled from the spec: the decorator \<^verbatim>\<open>pwndbg.lib.cache.cache_until("stop")\<close> on
  \<^verbatim>\<open>update\<close>, which is not part of the two modules: a result is cached until the next
  execution-stop event. A call of \<^verbatim>\<open>update()\<close> while a result is cached returns it
  (\<^verbatim>\<open>None\<close>) without running the body; otherwise the body runs and, unless it raises, its
  result is cached.
\<close>

definition cached_update :: "env \<Rightarrow> state \<Rightarrow> error option \<times> state" where
  "cached_update e s =
     (if update_cached s then (None, s)
      else case update e s of
             (Some err, s') \<Rightarrow> (Some err, s')
           | (None, s') \<Rightarrow> (None, s'\<lparr>update_cached := True\<rparr>))"


text \<open>
  The threads that the loop of \<^verbatim>\<open>update\<close> reaches, in order: all of them, or those up
  to and including the one whose iteration raises.
\<close>

fun visited :: "env \<Rightarrow> ptid list \<Rightarrow> state \<Rightarrow> ptid list" where
  "visited e [] s = []"
| "visited e (thread # rest) s =
     (case update_thread e thread s of
        (Some err, s') \<Rightarrow> [thread]
      | (None, s') \<Rightarrow> thread # visited e rest s')"

text \<open>The loop of \<^verbatim>\<open>find\<close> over \<^verbatim>\<open>stacks.values()\<close>; falling off the end returns \<^verbatim>\<open>None\<close>.\<close>

fun find_in :: "Page list \<Rightarrow> int \<Rightarrow> Page option" where
  "find_in [] address = None"
| "find_in (stack # rest) address =
     (if page_contains stack address then Some stack else find_in rest address)"

definition find :: "env \<Rightarrow> state \<Rightarrow> int \<Rightarrow> (error + Page option) \<times> state" where
  "find e s address =
     (case (if stacks s = [] then cached_update e s else (None, s)) of
        (Some err, s') \<Rightarrow> (Inl err, s')
      | (None, s') \<Rightarrow> (Inr (find_in (dict_values (stacks s')) address), s'))"


text \<open>
  A process lifetime as a run of \<^verbatim>\<open>update\<close> calls, one per environment (registers and
  threads change between stops); what a call raises is dropped, its effect on the state
  is kept.
\<close>

fun update_seq :: "env list \<Rightarrow> state \<Rightarrow> state" where
  "update_seq [] s = s"
| "update_seq (e # es) s = update_seq es (snd (update e s))"

subsection \<open>The stack scanner\<close>

text \<open>
  The \<^verbatim>\<open>while\<close> loop of \<^verbatim>\<open>find_addr_on_stack\<close>. It need not terminate (a pointer size
  of zero never advances), so not returning is the value \<open>None\<close>.
\<close>

partial_function (option) scan_stack ::
  "(int \<Rightarrow> error + int) \<Rightarrow> int \<Rightarrow> int \<Rightarrow> int \<Rightarrow> int \<Rightarrow> int \<Rightarrow> (error + int) option" where
  "scan_stack u start stop psz addr sp =
     (if start \<le> sp \<and> sp < stop then
        (case u sp of
           Inl err \<Rightarrow> Some (Inl err)
         | Inr val \<Rightarrow>
             if val = addr then Some (Inr sp)
             else scan_stack u start stop psz addr (sp + psz))
      else Some (Inr 0))"

definition find_addr_on_stack :: "env \<Rightarrow> state \<Rightarrow> int \<Rightarrow> (error + int) option" where
  "find_addr_on_stack e s addr =
     (case regs_sp e s of
        Inl err \<Rightarrow> Some (Inl err)
      | Inr sp \<Rightarrow>
          (case vmmap_find e sp of
             None \<Rightarrow> Some (Inl AttributeError)
           | Some stack \<Rightarrow>
               (let start = vaddr stack;
                    stop = start + memsz stack
                in case sp of
                     None \<Rightarrow> Some (Inl TypeError)
                   | Some sp \<Rightarrow> scan_stack (mem_u e) start stop (ptrsize e) addr sp)))"

subsection \<open>The canary command\<close>

text \<open>
  What \<^verbatim>\<open>canary\<close> prints, in order: its own messages and, for each displayed match, the
  call \<^verbatim>\<open>telescope(address=stack_canary, count=1)\<close>.
\<close>

datatype 't message =
    Error_no_at_random
  | Notice_at_random int
  | Notice_canary int
  | Success_found 't
  | Telescope int
  | Warn_no_canaries
  | Warn_hidden

text \<open>
  The outcome of \<^verbatim>\<open>canary\<close>: either the early return when \<^verbatim>\<open>AT_RANDOM\<close> is missing, or
  the final values of \<^verbatim>\<open>found_canaries\<close> and \<^verbatim>\<open>results_hidden\<close>; both with the output.
\<close>

datatype 't canary_result =
    Unavailable "'t message list"
  | Searched bool bool "'t message list"

text \<open>
  The loop of \<^verbatim>\<open>canary\<close> over the dictionary \<^verbatim>\<open>thread_stacks\<close>, on the triple
  (\<^verbatim>\<open>found_canaries\<close>, \<^verbatim>\<open>results_hidden\<close>, output so far).
\<close>

fun canary_threads ::
  "env \<Rightarrow> bool \<Rightarrow> nat list \<Rightarrow> ('t \<times> Page) list \<Rightarrow> bool \<times> bool \<times> 't message list
     \<Rightarrow> bool \<times> bool \<times> 't message list" where
  "canary_threads e all global_canary_packed [] acc = acc"
| "canary_threads e all global_canary_packed ((thread, thread_stack) # rest)
     (found_canaries, results_hidden, out) =
     (let stack_canaries =
            search e global_canary_packed (page_start thread_stack) (page_end thread_stack)
      in if stack_canaries = [] then
           canary_threads e all global_canary_packed rest (found_canaries, results_hidden, out)
         else
           (let found_canaries = True;
                out = out @ [Success_found thread];
                num_canaries_to_display = length stack_canaries;
                num_canaries_to_display =
                  (if \<not> all then min 2 num_canaries_to_display else num_canaries_to_display);
                out = out @ map Telescope (take num_canaries_to_display stack_canaries);
                results_hidden =
                  (if num_canaries_to_display < length stack_canaries then True
                   else results_hidden)
            in canary_threads e all global_canary_packed rest
                 (found_canaries, results_hidden, out)))"

text \<open>
  \<^verbatim>\<open>pwndbg.gdblib.stack.get()\<close>: the module \<^verbatim>\<open>stack.py\<close> defines no name \<^verbatim>\<open>get\<close>, so
  looking the attribute up raises \<^verbatim>\<open>AttributeError\<close>.
\<close>

definition stack_get :: "state \<Rightarrow> error + (ptid \<times> Page) list" where
  "stack_get s = Inl AttributeError"

text \<open>
  \<^verbatim>\<open>canary\<close>. An exception comes with what was printed before it.
\<close>

definition canary ::
  "env \<Rightarrow> state \<Rightarrow> bool \<Rightarrow> (error \<times> ptid message list) + ptid canary_result" where
  "canary e s all =
     (case canary_value e of
        Inl err \<Rightarrow> Inl (err, [])
      | Inr (Some global_canary, Some at_random) \<Rightarrow>
          (let out = [Notice_at_random at_random, Notice_canary global_canary];
               global_canary_packed = pack e global_canary
           in case stack_get s of
                Inl err \<Rightarrow> Inl (err, out)
              | Inr thread_stacks \<Rightarrow>
                  (case canary_threads e all global_canary_packed thread_stacks
                          (False, False, out) of
                     (found_canaries, results_hidden, out) \<Rightarrow>
                       (let out = (if found_canaries = False then out @ [Warn_no_canaries]
                                   else out);
                            out = (if results_hidden = True then out @ [Warn_hidden] else out)
                        in Inr (Searched found_canaries results_hidden out))))
      | Inr _ \<Rightarrow> Inr (Unavailable [Error_no_at_random]))"

text \<open>
  The display rule in the words of the specification: without \<open>showAll\<close> at most two
  matches of a thread are displayed, with it all of them; a thread without matches
  contributes nothing.
\<close>

definition displayed_spec :: "bool \<Rightarrow> int list \<Rightarrow> int list" where
  "displayed_spec show_all matches = (if show_all then matches else take 2 matches)"

definition thread_output_spec :: "bool \<Rightarrow> 't \<Rightarrow> int list \<Rightarrow> 't message list" where
  "thread_output_spec show_all thread matches =
     (if matches = [] then []
      else Success_found thread # map Telescope (displayed_spec show_all matches))"

text \<open>
  The lower bound of a Page moved down, its upper bound kept: what the claim on
  \<^verbatim>\<open>update\<close> calls extending a Page downward (or leaving it as it is).
\<close>

definition extended_down :: "Page \<Rightarrow> Page \<Rightarrow> bool" where
  "extended_down p p' \<longleftrightarrow> vaddr p' \<le> vaddr p \<and> memsz p' - memsz p = vaddr p - vaddr p'"

subsection \<open>Example sessions\<close>

text \<open>
  A process with a leader thread and one further thread whose stack pointers lie one
  page apart, on a target without the Linux ABI; its ELF file has a \<^verbatim>\<open>PT_GNU_STACK\<close>
  header.
\<close>

definition leader :: ptid where
  "leader = (100, 100, 1)"

definition worker :: ptid where
  "worker = (100, 101, 2)"

definition demo_page :: Page where
  "demo_page = \<lparr>vaddr = 0x7ffd0000, memsz = 0x2000, flags = 6, offset = 0,
                 objfile = Some ''[stack]''\<rparr>"

definition demo_env :: env where
  "demo_env =
     \<lparr>threads = [leader, worker],
      sp_of = (\<lambda>t. if t = leader then Inr (Some 0x7ffd1234)
                   else if t = worker then Inr (Some 0x7ffd2468) else Inr None),
      linux = False,
      mapped = (\<lambda>a. 0x7ffd0000 \<le> a \<and> a < 0x7ffd4000),
      phdrs = Inr [\<lparr>p_type = 1\<rparr>, \<lparr>p_type = 0x6474E551\<rparr>],
      vmmap_find = (\<lambda>sp. if sp = Some 0x7ffd1234 then Some demo_page else None),
      mem_u = (\<lambda>a. if a = 0x7ffd1244 then Inr 0xdeadbeef else Inr 0),
      pvoid = (\<lambda>a. if a = 0x7ffd1f00 then Inr 0x41414141414141C3 else Inl MemoryError),
      ptrsize = 8,
      auxv = [''AT_RANDOM'' \<mapsto> 0x7ffd1f00],
      pack = (\<lambda>v. map (\<lambda>i. nat (v div 256 ^ i mod 256)) [0..<8]),
      search = (\<lambda>pat start end.
                  if start = 0x7ffd0000
                  then [0x7ffd1010, 0x7ffd1020, 0x7ffd1030, 0x7ffd1040, 0x7ffd1050]
                  else [])\<rparr>"

text \<open>
  The state of a fresh session in which the leader is the selected thread and \<^verbatim>\<open>update\<close>
  has not run yet.
\<close>

definition demo_state :: state where
  "demo_state =
     \<lparr>stacks = [], nx = False, selected = Some leader, update_cached = False\<rparr>"

text \<open>The same session while the host has no selected thread.\<close>

definition unselected_state :: state where
  "unselected_state =
     \<lparr>stacks = [], nx = False, selected = None, update_cached = False\<rparr>"

text \<open>
  A single-threaded process on a Linux target whose stack pointer points into unmapped
  memory.
\<close>

definition unmapped_env :: env where
  "unmapped_env = demo_env\<lparr>threads := [leader], linux := True, mapped := (\<lambda>a. False)\<rparr>"

text \<open>The same process with stack pointers far apart, and without a \<^verbatim>\<open>PT_GNU_STACK\<close> header.\<close>

definition apart_env :: env where
  "apart_env =
     demo_env\<lparr>sp_of := (\<lambda>t. if t = leader then Inr (Some 0x7ffd1234)
                          else if t = worker then Inr (Some 0x7ffa2468) else Inr None),
              linux := True,
              phdrs := Inr [\<lparr>p_type = 1\<rparr>]\<rparr>"

text \<open>The same process when reading the ELF headers fails.\<close>

definition broken_elf_env :: env where
  "broken_elf_env = demo_env\<lparr>phdrs := Inl GdbError\<rparr>"

text \<open>The same process at a later stop, the leader's stack pointer two pages further down.\<close>

definition deeper_env :: env where
  "deeper_env =
     demo_env\<lparr>sp_of := (\<lambda>t. if t = leader then Inr (Some 0x7ffcf800)
                          else if t = worker then Inr (Some 0x7ffd2468) else Inr None)\<rparr>"

text \<open>The session after the process has exited: the inferior has no threads.\<close>

definition exited_env :: env where
  "exited_env = demo_env\<lparr>threads := []\<rparr>"

section \<open>Verified properties\<close>

subsection \<open>The canary value\<close>

lemma byte_is_mask: "(255::int) = mask 8"
  by (simp add: mask_eq_exp_minus_1)

lemma canary_mask_bits:
  assumes "0 < ptrsize e"
  shows "bit (v AND (ptrmask e XOR 0xFF)) i \<longleftrightarrow> bit v i \<and> 8 \<le> i \<and> i < 8 * nat (ptrsize e)"
proof -
  have m: "ptrmask e = mask (8 * nat (ptrsize e))"
    by (simp add: ptrmask_def mask_eq_exp_minus_1)
  have "8 \<le> 8 * nat (ptrsize e)" using assms by simp
  then show ?thesis
    unfolding m byte_is_mask by (auto simp add: bit_simps)
qed

lemma canary_low_byte:
  assumes "0 < ptrsize e"
  shows "(v AND (ptrmask e XOR 0xFF)) AND 0xFF = 0"
proof (rule bit_eqI)
  fix n
  have "bit (255::int) n \<longleftrightarrow> n < 8"
    unfolding byte_is_mask by (simp add: bit_mask_iff)
  moreover have "bit (v AND (ptrmask e XOR 255)) n \<longrightarrow> 8 \<le> n"
    using canary_mask_bits [OF assms, of v n] by simp
  moreover have "bit ((v AND (ptrmask e XOR 255)) AND 255) n
      \<longleftrightarrow> bit (v AND (ptrmask e XOR 255)) n \<and> bit (255::int) n"
    by (rule bit_and_iff)
  ultimately show "bit ((v AND (ptrmask e XOR 255)) AND 255) n = bit (0::int) n"
    by auto
qed

lemma canary_low_byte_mod:
  assumes "0 < ptrsize e"
  shows "(v AND (ptrmask e XOR 0xFF)) mod 256 = 0"
  using canary_low_byte [OF assms, of v]
  by (simp add: byte_is_mask flip: take_bit_eq_mask add: take_bit_eq_mod)

text \<open>
  Claim C1. On an architecture whose pointers have at least one byte, \<^verbatim>\<open>canary_value\<close>
  returns \<open>(None, None)\<close> exactly when the auxiliary vector has no \<^verbatim>\<open>AT_RANDOM\<close> entry.
  Otherwise, when the read at that address yields \<open>v\<close>, it returns a masked value paired
  with the unmasked address, where the masked value has exactly the bits of \<open>v\<close> from bit 8
  up to the pointer width; and the low byte of every returned masked value is zero.
\<close>

theorem canary_value_correct:
  assumes "0 < ptrsize e"
  shows "(canary_value e = Inr (None, None) \<longleftrightarrow> auxv e ''AT_RANDOM'' = None)
    \<and> (\<forall>a v. auxv e ''AT_RANDOM'' = Some a \<and> pvoid e a = Inr v \<longrightarrow>
          (\<exists>m. canary_value e = Inr (Some m, Some a)
             \<and> (\<forall>i. bit m i \<longleftrightarrow> bit v i \<and> 8 \<le> i \<and> i < 8 * nat (ptrsize e))))
    \<and> (\<forall>m a. canary_value e = Inr (Some m, a) \<longrightarrow> m AND 0xFF = 0 \<and> m mod 256 = 0)"
  using assms
  by (auto simp add: canary_value_def canary_mask_bits canary_low_byte canary_low_byte_mod
      split: option.splits sum.splits)

theorem canary_value_correct_witness:
  "0 < ptrsize demo_env
   \<and> auxv demo_env ''AT_RANDOM'' = Some 0x7ffd1f00
   \<and> pvoid demo_env 0x7ffd1f00 = Inr 0x41414141414141C3
   \<and> canary_value demo_env = Inr (Some 0x4141414141414100, Some 0x7ffd1f00)
   \<and> (0x4141414141414100 :: int) AND 0xFF = 0"
proof -
  have h: "0 < ptrsize demo_env" by (simp add: demo_env_def)
  have a: "auxv demo_env ''AT_RANDOM'' = Some 0x7ffd1f00" by (simp add: demo_env_def)
  have v: "pvoid demo_env 0x7ffd1f00 = Inr 0x41414141414141C3" by (simp add: demo_env_def)
  have c: "canary_value demo_env = Inr (Some 0x4141414141414100, Some 0x7ffd1f00)"
    by (simp add: canary_value_def demo_env_def ptrmask_def)
  from canary_value_correct [OF h] c
  have "(0x4141414141414100 :: int) AND 0xFF = 0" by blast
  with h a v c show ?thesis by blast
qed

subsection \<open>The stack scanner\<close>

text \<open>The scan returns the first slot that holds the target, \<open>k\<close> steps above the start.\<close>

lemma scan_stack_found:
  assumes psz: "0 < psz"
  shows "start \<le> sp \<Longrightarrow> sp + int k * psz < stop \<Longrightarrow> u (sp + int k * psz) = Inr addr
    \<Longrightarrow> (\<forall>j<k. \<exists>v. u (sp + int j * psz) = Inr v \<and> v \<noteq> addr)
    \<Longrightarrow> scan_stack u start stop psz addr sp = Some (Inr (sp + int k * psz))"
proof (induction k arbitrary: sp)
  case 0
  then show ?case by (subst scan_stack.simps) simp
next
  case (Suc k)
  have step: "sp + int (Suc k) * psz = (sp + psz) + int k * psz"
    by (simp add: algebra_simps)
  have "0 \<le> int (Suc k) * psz" using psz by simp
  then have lt: "sp < stop" using Suc.prems(2) by linarith
  obtain v where v: "u sp = Inr v" "v \<noteq> addr"
    using Suc.prems(4) [rule_format, of 0] by auto
  have later: "\<forall>j<k. \<exists>v. u (sp + psz + int j * psz) = Inr v \<and> v \<noteq> addr"
  proof (intro allI impI)
    fix j assume "j < k"
    then have "Suc j < Suc k" by simp
    from Suc.prems(4) [rule_format, OF this]
    show "\<exists>v. u (sp + psz + int j * psz) = Inr v \<and> v \<noteq> addr"
      by (simp add: algebra_simps)
  qed
  have "scan_stack u start stop psz addr (sp + psz) = Some (Inr (sp + psz + int k * psz))"
  proof (rule Suc.IH)
    show "start \<le> sp + psz" using Suc.prems(1) psz by linarith
    show "sp + psz + int k * psz < stop" using Suc.prems(2) unfolding step .
    show "u (sp + psz + int k * psz) = Inr addr" using Suc.prems(3) unfolding step .
    show "\<forall>j<k. \<exists>v. u (sp + psz + int j * psz) = Inr v \<and> v \<noteq> addr" by (rule later)
  qed
  then show ?case
    using Suc.prems(1) lt v step by (subst scan_stack.simps) simp
qed

text \<open>The scan returns 0 when no slot up to the upper bound holds the target.\<close>

lemma scan_stack_absent:
  assumes psz: "0 < psz"
  shows "(\<forall>k::nat. sp + int k * psz < stop \<longrightarrow> (\<exists>v. u (sp + int k * psz) = Inr v \<and> v \<noteq> addr))
    \<Longrightarrow> scan_stack u start stop psz addr sp = Some (Inr 0)"
proof (induction "nat (stop - sp)" arbitrary: sp rule: less_induct)
  case less
  show ?case
  proof (cases "start \<le> sp \<and> sp < stop")
    case False
    then show ?thesis by (subst scan_stack.simps) auto
  next
    case True
    obtain v where v: "u sp = Inr v" "v \<noteq> addr"
      using less.prems [rule_format, of 0] True by auto
    have later: "\<forall>k::nat. sp + psz + int k * psz < stop
        \<longrightarrow> (\<exists>v. u (sp + psz + int k * psz) = Inr v \<and> v \<noteq> addr)"
    proof (intro allI impI)
      fix k :: nat assume "sp + psz + int k * psz < stop"
      then have "sp + int (Suc k) * psz < stop" by (simp add: algebra_simps)
      from less.prems [rule_format, OF this]
      show "\<exists>v. u (sp + psz + int k * psz) = Inr v \<and> v \<noteq> addr"
        by (simp add: algebra_simps)
    qed
    have "nat (stop - (sp + psz)) < nat (stop - sp)" using True psz by linarith
    from less.hyps [OF this later]
    have "scan_stack u start stop psz addr (sp + psz) = Some (Inr 0)" .
    then show ?thesis using True v by (subst scan_stack.simps) simp
  qed
qed

text \<open>
  Claim C3. Let the pointer size be positive, \<open>sp\<close> the stack pointer of the selected
  thread and \<open>stack\<close> the Page that \<^verbatim>\<open>vmmap.find(sp)\<close> returns, which contains \<open>sp\<close>. The
  slots are the addresses \<open>sp + k * ptrsize\<close> below the upper bound of the Page. When
  every slot holds a value other than the target, \<^verbatim>\<open>find_addr_on_stack\<close> returns 0; when
  slot \<open>k\<close> holds the target and no lower slot does, it returns the address of slot \<open>k\<close>.
  In both cases the loop terminates.
\<close>

theorem find_addr_on_stack_correct:
  assumes "0 < ptrsize e"
    and "regs_sp e s = Inr (Some sp)"
    and "vmmap_find e (Some sp) = Some stack"
    and "page_contains stack sp"
  shows "((\<forall>k::nat. sp + int k * ptrsize e < page_end stack \<longrightarrow>
             (\<exists>v. mem_u e (sp + int k * ptrsize e) = Inr v \<and> v \<noteq> target))
           \<longrightarrow> find_addr_on_stack e s target = Some (Inr 0))
       \<and> (\<forall>k::nat. sp + int k * ptrsize e < page_end stack
             \<and> mem_u e (sp + int k * ptrsize e) = Inr target
             \<and> (\<forall>j<k. \<exists>v. mem_u e (sp + int j * ptrsize e) = Inr v \<and> v \<noteq> target)
           \<longrightarrow> find_addr_on_stack e s target = Some (Inr (sp + int k * ptrsize e)))"
proof (intro conjI impI allI)
  assume "\<forall>k::nat. sp + int k * ptrsize e < page_end stack \<longrightarrow>
             (\<exists>v. mem_u e (sp + int k * ptrsize e) = Inr v \<and> v \<noteq> target)"
  then have "scan_stack (mem_u e) (vaddr stack) (vaddr stack + memsz stack) (ptrsize e) target sp
      = Some (Inr 0)"
    unfolding page_end_def by (rule scan_stack_absent [OF assms(1)])
  then show "find_addr_on_stack e s target = Some (Inr 0)"
    using assms(2,3) by (simp add: find_addr_on_stack_def)
next
  fix k :: nat
  assume h: "sp + int k * ptrsize e < page_end stack
             \<and> mem_u e (sp + int k * ptrsize e) = Inr target
             \<and> (\<forall>j<k. \<exists>v. mem_u e (sp + int j * ptrsize e) = Inr v \<and> v \<noteq> target)"
  have "vaddr stack \<le> sp" using assms(4) by (simp add: page_contains_def page_start_def)
  then have "scan_stack (mem_u e) (vaddr stack) (vaddr stack + memsz stack) (ptrsize e) target sp
      = Some (Inr (sp + int k * ptrsize e))"
    using h unfolding page_end_def by (intro scan_stack_found [OF assms(1)]) simp_all
  then show "find_addr_on_stack e s target = Some (Inr (sp + int k * ptrsize e))"
    using assms(2,3) by (simp add: find_addr_on_stack_def)
qed

theorem find_addr_on_stack_correct_witness:
  "0 < ptrsize demo_env
   \<and> regs_sp demo_env demo_state = Inr (Some 0x7ffd1234)
   \<and> vmmap_find demo_env (Some 0x7ffd1234) = Some demo_page
   \<and> page_contains demo_page 0x7ffd1234
   \<and> find_addr_on_stack demo_env demo_state 0x1337 = Some (Inr 0)
   \<and> find_addr_on_stack demo_env demo_state 0xdeadbeef = Some (Inr 0x7ffd1244)"
proof -
  have h1: "0 < ptrsize demo_env" by (simp add: demo_env_def)
  have h2: "regs_sp demo_env demo_state = Inr (Some 0x7ffd1234)"
    by (simp add: regs_sp_def demo_env_def demo_state_def)
  have h3: "vmmap_find demo_env (Some 0x7ffd1234) = Some demo_page"
    by (simp add: demo_env_def)
  have h4: "page_contains demo_page 0x7ffd1234"
    by (simp add: page_contains_def page_start_def page_end_def demo_page_def)
  note t = find_addr_on_stack_correct [OF h1 h2 h3 h4]
  have absent: "\<forall>k::nat. 0x7ffd1234 + int k * ptrsize demo_env < page_end demo_page \<longrightarrow>
      (\<exists>v. mem_u demo_env (0x7ffd1234 + int k * ptrsize demo_env) = Inr v \<and> v \<noteq> 0x1337)"
    by (simp add: demo_env_def)
  have r0: "find_addr_on_stack demo_env demo_state 0x1337 = Some (Inr 0)"
    using t [of "0x1337", THEN conjunct1] absent by blast
  have present: "0x7ffd1234 + int 2 * ptrsize demo_env < page_end demo_page
      \<and> mem_u demo_env (0x7ffd1234 + int 2 * ptrsize demo_env) = Inr 0xdeadbeef
      \<and> (\<forall>j<2. \<exists>v. mem_u demo_env (0x7ffd1234 + int j * ptrsize demo_env) = Inr v
             \<and> v \<noteq> 0xdeadbeef)"
    by (auto simp add: demo_env_def page_end_def demo_page_def)
  have "find_addr_on_stack demo_env demo_state 0xdeadbeef
      = Some (Inr (0x7ffd1234 + int 2 * ptrsize demo_env))"
    using t [of "0xdeadbeef", THEN conjunct2, rule_format, OF present] .
  then have r1: "find_addr_on_stack demo_env demo_state 0xdeadbeef = Some (Inr 0x7ffd1244)"
    by (simp add: demo_env_def)
  from h1 h2 h3 h4 r0 r1 show ?thesis by blast
qed

subsection \<open>The stack range tracker: one iteration and the loop\<close>

lemma dict_get_dict_set:
  "dict_get (dict_set kvs k v) k' = (if k' = k then Some v else dict_get kvs k')"
  by (induction kvs) (auto simp add: dict_get_def)

lemma scan_phdrs_iff:
  "scan_phdrs hs b \<longleftrightarrow> b \<or> (\<exists>h\<in>set hs. p_type h = PT_GNU_STACK)"
  by (induction hs arbitrary: b) auto

lemma is_executable_stacks [simp]: "stacks (snd (is_executable e s)) = stacks s"
  by (simp add: is_executable_def Let_def split: sum.splits)

lemma is_executable_selected [simp]: "selected (snd (is_executable e s)) = selected s"
  by (simp add: is_executable_def Let_def split: sum.splits)

lemma is_executable_result:
  assumes "phdrs e = Inr hs"
  shows "fst (is_executable e s) = Inr (\<not> (\<exists>h\<in>set hs. p_type h = PT_GNU_STACK))"
  using assms by (simp add: is_executable_def Let_def scan_phdrs_iff)

lemma is_executable_error:
  assumes "fst (is_executable e s) = Inr ex"
  shows "\<exists>hs. phdrs e = Inr hs \<and> ex = (\<not> (\<exists>h\<in>set hs. p_type h = PT_GNU_STACK))"
  using assms by (auto simp add: is_executable_def Let_def scan_phdrs_iff split: sum.splits)

lemma regs_sp_selected [simp]: "regs_sp e (s\<lparr>selected := Some t\<rparr>) = sp_of e t"
  by (simp add: regs_sp_def)

text \<open>An iteration for one thread leaves the entries of all other threads alone.\<close>

lemma update_thread_other:
  assumes "k \<noteq> t"
  shows "dict_get (stacks (snd (update_thread e t s))) k = dict_get (stacks s) k"
proof -
  obtain r s1 where ie: "is_executable e (s\<lparr>selected := Some t\<rparr>) = (r, s1)"
    by (cases "is_executable e (s\<lparr>selected := Some t\<rparr>)")
  have "stacks s1 = stacks s"
    using is_executable_stacks [of e "s\<lparr>selected := Some t\<rparr>"] ie by simp
  then show ?thesis
    using assms ie
    by (simp add: update_thread_def Let_def dict_get_dict_set
        split: sum.splits option.splits prod.splits)
qed

text \<open>An iteration for a thread that has an entry keeps the flags and the upper bound.\<close>

lemma update_thread_existing:
  assumes "dict_get (stacks s) t = Some p"
  shows "\<exists>p'. dict_get (stacks (snd (update_thread e t s))) t = Some p'
           \<and> extended_down p p' \<and> flags p' = flags p
           \<and> (objfile p \<noteq> None \<longrightarrow> objfile p' = objfile p)"
  using assms
  by (cases t) (auto simp add: update_thread_def Let_def dict_get_dict_set extended_down_def
      min_def split: sum.splits option.splits)

text \<open>The Page that an iteration creates for a thread without an entry.\<close>

lemma update_thread_new:
  assumes "dict_get (stacks s) t = None"
    and "dict_get (stacks (snd (update_thread e t s))) t = Some p"
  shows "\<exists>sp hs. sp_of e t = Inr (Some sp) \<and> sp \<noteq> 0 \<and> phdrs e = Inr hs
           \<and> p = \<lparr>vaddr = (sp AND NOT 0xFFF) - 0x1000,
                   memsz = find_upper_stack_boundary e sp 1024 - ((sp AND NOT 0xFFF) - 0x1000),
                   flags = (if \<exists>h\<in>set hs. p_type h = PT_GNU_STACK then 6 else 7),
                   offset = 0, objfile = Some ''[stack]''\<rparr>"
proof -
  obtain r s1 where ie: "is_executable e (s\<lparr>selected := Some t\<rparr>) = (r, s1)"
    by (cases "is_executable e (s\<lparr>selected := Some t\<rparr>)")
  have st: "stacks s1 = stacks s"
    using is_executable_stacks [of e "s\<lparr>selected := Some t\<rparr>"] ie by simp
  have ex: "r = Inr x \<Longrightarrow> \<exists>hs. phdrs e = Inr hs \<and> x = (\<not> (\<exists>h\<in>set hs. p_type h = PT_GNU_STACK))" for x
    using is_executable_error [of e "s\<lparr>selected := Some t\<rparr>" x] ie by simp
  show ?thesis
    using assms ie st ex
    by (auto simp add: update_thread_def Let_def dict_get_dict_set
        split: sum.splits option.splits if_splits)
qed

lemma update_threads_invariant:
  assumes step: "\<And>t s. P s \<Longrightarrow> P (snd (update_thread e t s))"
    and "P s"
  shows "P (snd (update_threads e ts s))"
  using \<open>P s\<close>
proof (induction ts arbitrary: s)
  case Nil
  then show ?case by simp
next
  case (Cons t ts)
  obtain r s' where u: "update_thread e t s = (r, s')" by (cases "update_thread e t s")
  have "P s'" using step [OF Cons.prems, of t] u by simp
  then show ?case using u Cons.IH [of s'] by (cases r) simp_all
qed

lemma update_stacks: "stacks (snd (update e s)) = stacks (snd (update_threads e (threads e) s))"
  by (simp add: update_def Let_def split: prod.splits option.splits)

lemma update_invariant:
  assumes step: "\<And>t s. P (stacks s) \<Longrightarrow> P (stacks (snd (update_thread e t s)))"
    and "P (stacks s)"
  shows "P (stacks (snd (update e s)))"
  unfolding update_stacks
  by (rule update_threads_invariant [where P = "\<lambda>s. P (stacks s)"]) (use assms in auto)

subsection \<open>The lower bound only moves down\<close>

lemma extended_down_refl: "extended_down p p"
  by (simp add: extended_down_def)

lemma extended_down_trans: "extended_down p q \<Longrightarrow> extended_down q r \<Longrightarrow> extended_down p r"
  by (auto simp add: extended_down_def)

lemma update_thread_lower:
  assumes "\<exists>p'. dict_get (stacks s) k = Some p' \<and> extended_down p p'"
  shows "\<exists>p'. dict_get (stacks (snd (update_thread e t s))) k = Some p' \<and> extended_down p p'"
proof (cases "k = t")
  case False
  then show ?thesis using assms by (simp add: update_thread_other)
next
  case True
  from assms obtain q where q: "dict_get (stacks s) t = Some q" "extended_down p q"
    using True by auto
  from update_thread_existing [OF q(1), of e]
  obtain q' where "dict_get (stacks (snd (update_thread e t s))) t = Some q'" "extended_down q q'"
    by auto
  then show ?thesis using q(2) True extended_down_trans by blast
qed

lemma update_lower:
  assumes "\<exists>p'. dict_get (stacks s) k = Some p' \<and> extended_down p p'"
  shows "\<exists>p'. dict_get (stacks (snd (update e s))) k = Some p' \<and> extended_down p p'"
  by (rule update_invariant
      [where P = "\<lambda>st. \<exists>p'. dict_get st k = Some p' \<and> extended_down p p'"])
    (use assms update_thread_lower in auto)

text \<open>
  Claim C4. Take any run of \<^verbatim>\<open>update\<close> calls without a \<^verbatim>\<open>clear\<close> in between, under any
  environments and whether or not a call raises. A thread that has the Page \<open>p\<close> before
  the run has a Page \<open>p'\<close> after it whose lower bound is at most that of \<open>p\<close>, whose size
  has grown by exactly the amount the lower bound has dropped, and whose upper bound is
  that of \<open>p\<close>.
\<close>

theorem update_lower_bound_monotone:
  assumes "dict_get (stacks s) k = Some p"
  shows "\<exists>p'. dict_get (stacks (update_seq es s)) k = Some p'
           \<and> vaddr p' \<le> vaddr p
           \<and> memsz p' - memsz p = vaddr p - vaddr p'
           \<and> page_end p' = page_end p"
proof -
  have "\<exists>p'. dict_get (stacks s) k = Some p' \<and> extended_down p p'
    \<Longrightarrow> \<exists>p'. dict_get (stacks (update_seq es s)) k = Some p' \<and> extended_down p p'"
  proof (induction es arbitrary: s)
    case Nil
    then show ?case by simp
  next
    case (Cons e es)
    from update_lower [OF Cons.prems, of e]
    show ?case using Cons.IH [of "snd (update e s)"] by simp
  qed
  then show ?thesis
    using assms extended_down_refl [of p] by (auto simp add: extended_down_def page_end_def)
qed

text \<open>The equations that evaluate \<^verbatim>\<open>update\<close> on a concrete session.\<close>

lemmas eval_update = update_def update_threads.simps update_thread_def regs_sp_def dict_get_def
  find_upper_stack_boundary_def page_align_def PAGE_SIZE_def is_executable_def
  PT_GNU_STACK_def leader_def worker_def Let_def

theorem update_lower_bound_monotone_witness:
  "dict_get (stacks \<lparr>stacks = [(leader, demo_page)], nx = True, selected = Some leader,
                      update_cached = False\<rparr>) leader
     = Some demo_page
   \<and> dict_get (stacks (update_seq [deeper_env, demo_env]
         \<lparr>stacks = [(leader, demo_page)], nx = True, selected = Some leader,
           update_cached = False\<rparr>)) leader
     = Some (demo_page\<lparr>vaddr := 0x7ffce000, memsz := 0x4000\<rparr>)
   \<and> vaddr (demo_page\<lparr>vaddr := 0x7ffce000, memsz := 0x4000\<rparr>) \<le> vaddr demo_page"
proof -
  let ?s = "\<lparr>stacks = [(leader, demo_page)], nx = True, selected = Some leader,
             update_cached = False\<rparr>"
  have h: "dict_get (stacks ?s) leader = Some demo_page"
    by (simp add: dict_get_def)
  have r: "dict_get (stacks (update_seq [deeper_env, demo_env] ?s)) leader
      = Some (demo_page\<lparr>vaddr := 0x7ffce000, memsz := 0x4000\<rparr>)"
    by (simp add: eval_update deeper_env_def demo_env_def demo_page_def)
  from update_lower_bound_monotone [OF h, of "[deeper_env, demo_env]"] r
  have "vaddr (demo_page\<lparr>vaddr := 0x7ffce000, memsz := 0x4000\<rparr>) \<le> vaddr demo_page"
    by auto
  with h r show ?thesis by blast
qed

subsection \<open>The executable flag and the permission of a new Page\<close>

text \<open>What \<^verbatim>\<open>update\<close> does to a fresh session of the example process.\<close>

lemma demo_update:
  "update demo_env demo_state =
     (None, \<lparr>stacks = [(leader, \<lparr>vaddr = 0x7ffd0000, memsz = 0x2000, flags = 6, offset = 0,
                                  objfile = Some ''[stack]''\<rparr>),
                        (worker, \<lparr>vaddr = 0x7ffd1000, memsz = 0x2000, flags = 6, offset = 0,
                                  objfile = Some ''[stack]''\<rparr>)],
             nx = True, selected = Some leader, update_cached = False\<rparr>)"
  by (simp add: eval_update demo_env_def demo_state_def)

lemma update_thread_flags:
  assumes "phdrs e = Inr hs"
    and F: "F = (if \<exists>h\<in>set hs. p_type h = PT_GNU_STACK then 6 else 7)"
    and "dict_get (stacks s) k = None \<or> (\<exists>p. dict_get (stacks s) k = Some p \<and> flags p = F)"
  shows "dict_get (stacks (snd (update_thread e t s))) k = None
         \<or> (\<exists>p. dict_get (stacks (snd (update_thread e t s))) k = Some p \<and> flags p = F)"
proof (cases "k = t")
  case False
  then show ?thesis using assms(3) by (simp add: update_thread_other)
next
  case True
  show ?thesis
  proof (cases "dict_get (stacks s) t")
    case None
    show ?thesis
    proof (cases "dict_get (stacks (snd (update_thread e t s))) t")
      case (Some p)
      from update_thread_new [OF None Some] assms(1) have "flags p = F"
        unfolding F by auto
      then show ?thesis using True Some by simp
    qed (simp add: True)
  next
    case (Some q)
    then have "flags q = F" using assms(3) True by simp
    with update_thread_existing [OF Some, of e] True
    show ?thesis by auto
  qed
qed

text \<open>
  Claim C6. When the ELF program headers can be read, \<^verbatim>\<open>is_executable\<close> returns false
  if some header has the type \<^verbatim>\<open>PT_GNU_STACK\<close> (\<open>0x6474E551\<close>) and true if none has; and
  every Page that a call of \<^verbatim>\<open>update\<close> creates (for a thread without an entry before the
  call) has the permission value 6 in the first case and 7 in the second.
\<close>

theorem is_executable_permission:
  assumes "phdrs e = Inr hs"
  shows "fst (is_executable e s) = Inr (\<not> (\<exists>h\<in>set hs. p_type h = 0x6474E551))
       \<and> (\<forall>k p. dict_get (stacks s) k = None \<and> dict_get (stacks (snd (update e s))) k = Some p
             \<longrightarrow> flags p = (if \<exists>h\<in>set hs. p_type h = 0x6474E551 then 6 else 7))"
proof (intro conjI allI impI)
  show "fst (is_executable e s) = Inr (\<not> (\<exists>h\<in>set hs. p_type h = 0x6474E551))"
    using is_executable_result [OF assms, of s] by (simp add: PT_GNU_STACK_def)
next
  fix k p
  assume h: "dict_get (stacks s) k = None \<and> dict_get (stacks (snd (update e s))) k = Some p"
  define F :: int where "F = (if \<exists>h\<in>set hs. p_type h = PT_GNU_STACK then 6 else 7)"
  have "dict_get (stacks (snd (update e s))) k = None
         \<or> (\<exists>p. dict_get (stacks (snd (update e s))) k = Some p \<and> flags p = F)"
    by (rule update_invariant
        [where P = "\<lambda>st. dict_get st k = None \<or> (\<exists>p. dict_get st k = Some p \<and> flags p = F)"])
      (use h update_thread_flags [OF assms F_def] in auto)
  then have "flags p = F" using h by auto
  then show "flags p = (if \<exists>h\<in>set hs. p_type h = 0x6474E551 then 6 else 7)"
    by (simp add: F_def PT_GNU_STACK_def)
qed

theorem is_executable_permission_witness:
  "phdrs demo_env = Inr [\<lparr>p_type = 1\<rparr>, \<lparr>p_type = 0x6474E551\<rparr>]
   \<and> fst (is_executable demo_env demo_state) = Inr False
   \<and> dict_get (stacks demo_state) leader = None
   \<and> dict_get (stacks (snd (update demo_env demo_state))) leader
       = Some \<lparr>vaddr = 0x7ffd0000, memsz = 0x2000, flags = 6, offset = 0,
               objfile = Some ''[stack]''\<rparr>
   \<and> flags \<lparr>vaddr = 0x7ffd0000, memsz = 0x2000, flags = 6, offset = 0,
             objfile = Some ''[stack]''\<rparr> = 6"
proof -
  let ?p = "\<lparr>vaddr = 0x7ffd0000, memsz = 0x2000, flags = 6, offset = 0,
             objfile = Some ''[stack]''\<rparr>"
  have h: "phdrs demo_env = Inr [\<lparr>p_type = 1\<rparr>, \<lparr>p_type = 0x6474E551\<rparr>]"
    by (simp add: demo_env_def)
  note t = is_executable_permission [OF h, of demo_state]
  have a: "fst (is_executable demo_env demo_state) = Inr False"
    using t [THEN conjunct1] by simp
  have b: "dict_get (stacks demo_state) leader = None"
    by (simp add: demo_state_def dict_get_def)
  have c: "dict_get (stacks (snd (update demo_env demo_state))) leader = Some ?p"
    by (simp add: demo_update dict_get_def)
  have "flags ?p = 6"
    using t [THEN conjunct2, rule_format, of leader ?p] b c by simp
  with h a b c show ?thesis by blast
qed

subsection \<open>The selected thread\<close>

lemma update_thread_selected: "selected (snd (update_thread e t s)) = Some t"
proof -
  obtain r s1 where ie: "is_executable e (s\<lparr>selected := Some t\<rparr>) = (r, s1)"
    by (cases "is_executable e (s\<lparr>selected := Some t\<rparr>)")
  have "selected s1 = Some t"
    using is_executable_selected [of e "s\<lparr>selected := Some t\<rparr>"] ie by simp
  then show ?thesis
    using ie
    by (simp add: update_thread_def Let_def split: sum.splits option.splits prod.splits)
qed

lemma visited_subset: "set (visited e ts s) \<subseteq> set ts"
  by (induction ts arbitrary: s) (auto split: prod.splits option.splits)

lemma visited_nonempty: "ts \<noteq> [] \<Longrightarrow> visited e ts s \<noteq> []"
  by (cases ts) (auto split: prod.splits option.splits)

lemma visited_complete: "fst (update_threads e ts s) = None \<Longrightarrow> visited e ts s = ts"
  by (induction ts arbitrary: s) (auto split: prod.splits option.splits)

text \<open>After the loop the last thread it reached is the selected one.\<close>

lemma update_threads_selected:
  "ts \<noteq> [] \<Longrightarrow> selected (snd (update_threads e ts s)) = Some (last (visited e ts s))"
proof (induction ts arbitrary: s)
  case Nil
  then show ?case by simp
next
  case (Cons t ts)
  obtain r s1 where u: "update_thread e t s = (r, s1)" by (cases "update_thread e t s")
  have sel: "selected s1 = Some t"
    using update_thread_selected [of e t s] u by simp
  show ?case
  proof (cases r)
    case (Some err)
    then show ?thesis using u sel by simp
  next
    case None
    show ?thesis
    proof (cases "ts = []")
      case True
      then show ?thesis using u None sel by simp
    next
      case False
      then show ?thesis
        using u None Cons.IH [OF False, of s1] visited_nonempty [OF False, of e s1] by simp
    qed
  qed
qed

text \<open>
  Claim C9, as amended. When a thread is selected before \<^verbatim>\<open>update\<close> is called, the same
  thread is selected after the call, on every exit path: whether the loop over the
  threads completes or an exception interrupts it. When no thread is selected before the
  call, nothing is restored: the selection is unchanged if the inferior has no threads,
  and otherwise the last thread that the loop reached stays selected, which is the last
  thread of the inferior when the loop completes.
\<close>

theorem update_restores_selected_thread:
  "(selected s = Some c \<longrightarrow> selected (snd (update e s)) = Some c)
   \<and> (selected s = None \<and> threads e = [] \<longrightarrow> selected (snd (update e s)) = None)
   \<and> (selected s = None \<and> threads e \<noteq> [] \<longrightarrow>
         selected (snd (update e s)) = Some (last (visited e (threads e) s))
         \<and> last (visited e (threads e) s) \<in> set (threads e))
   \<and> (selected s = None \<and> threads e \<noteq> [] \<and> fst (update e s) = None \<longrightarrow>
         selected (snd (update e s)) = Some (last (threads e)))"
proof (intro conjI impI)
  assume "selected s = Some c"
  then show "selected (snd (update e s)) = Some c"
    by (auto simp add: update_def Let_def split: prod.splits option.splits)
next
  assume "selected s = None \<and> threads e = []"
  then show "selected (snd (update e s)) = None"
    by (auto simp add: update_def Let_def split: prod.splits option.splits)
next
  assume h: "selected s = None \<and> threads e \<noteq> []"
  then have u: "update e s = update_threads e (threads e) s"
    by (simp add: update_def Let_def split: prod.splits)
  show "selected (snd (update e s)) = Some (last (visited e (threads e) s))"
    unfolding u using h by (simp add: update_threads_selected)
  have "last (visited e (threads e) s) \<in> set (visited e (threads e) s)"
    using h visited_nonempty [of "threads e" e s] by simp
  then show "last (visited e (threads e) s) \<in> set (threads e)"
    using visited_subset [of e "threads e" s] by blast
next
  assume h: "selected s = None \<and> threads e \<noteq> [] \<and> fst (update e s) = None"
  then have u: "update e s = update_threads e (threads e) s"
    by (simp add: update_def Let_def split: prod.splits)
  then have "visited e (threads e) s = threads e"
    using h visited_complete [of e "threads e" s] by simp
  then show "selected (snd (update e s)) = Some (last (threads e))"
    unfolding u using h update_threads_selected [of "threads e" e s] by simp
qed

theorem update_restores_selected_thread_witness:
  "selected demo_state = Some leader
   \<and> fst (update broken_elf_env demo_state) = Some GdbError
   \<and> selected (snd (update broken_elf_env demo_state)) = Some leader
   \<and> selected (snd (update demo_env demo_state)) = Some leader
   \<and> selected unselected_state = None \<and> threads exited_env = []
   \<and> selected (snd (update exited_env unselected_state)) = None
   \<and> threads demo_env \<noteq> [] \<and> fst (update demo_env unselected_state) = None
   \<and> last (threads demo_env) = worker
   \<and> selected (snd (update demo_env unselected_state)) = Some worker"
proof -
  have h: "selected demo_state = Some leader" by (simp add: demo_state_def)
  have f: "fst (update broken_elf_env demo_state) = Some GdbError"
    by (simp add: eval_update broken_elf_env_def demo_env_def demo_state_def)
  have n: "selected unselected_state = None \<and> threads exited_env = []"
    by (simp add: unselected_state_def exited_env_def)
  have m: "selected unselected_state = None \<and> threads demo_env \<noteq> []
      \<and> fst (update demo_env unselected_state) = None"
    by (simp add: eval_update demo_env_def unselected_state_def)
  have l: "last (threads demo_env) = worker" by (simp add: demo_env_def)
  from update_restores_selected_thread [of demo_state leader broken_elf_env] h
  have a: "selected (snd (update broken_elf_env demo_state)) = Some leader" by blast
  from update_restores_selected_thread [of demo_state leader demo_env] h
  have b: "selected (snd (update demo_env demo_state)) = Some leader" by blast
  from update_restores_selected_thread [of unselected_state leader exited_env] n
  have c: "selected (snd (update exited_env unselected_state)) = None" by blast
  from update_restores_selected_thread [of unselected_state leader demo_env] m
  have "selected (snd (update demo_env unselected_state)) = Some (last (threads demo_env))"
    by blast
  then have d: "selected (snd (update demo_env unselected_state)) = Some worker"
    using l by simp
  from h f n m l a b c d show ?thesis by blast
qed

text \<open>
  The claim as stated fails when no thread is selected before the call and the inferior
  has threads: the \<^verbatim>\<open>finally\<close> block restores only a thread, so the last thread visited
  stays selected.
\<close>

theorem update_unselected_counterexample:
  "selected unselected_state = None
   \<and> selected (snd (update demo_env unselected_state)) = Some (100, 101, 2)"
  by (simp add: eval_update demo_env_def unselected_state_def)

subsection \<open>A new Page and the stack pointer it was made from\<close>

lemma align_down_eq: "(x::int) AND NOT 0xFFF = x - x mod 0x1000"
proof -
  have m: "(0xFFF::int) = mask 12" by (simp add: mask_eq_exp_minus_1)
  have "NOT x AND (x AND mask 12) = 0"
    by (auto simp add: bit_eq_iff bit_simps)
  then have "x - (x AND mask 12) = x AND NOT (x AND mask 12)"
    by (rule disjunctive_diff_eq_and_not)
  also have "\<dots> = x AND NOT (mask 12)"
    by (auto simp add: bit_eq_iff bit_simps)
  finally have "x AND NOT (mask 12) = x - take_bit 12 x"
    by (simp add: take_bit_eq_mask)
  then show ?thesis
    unfolding m by (simp add: take_bit_eq_mod)
qed

lemma align_down_minus_eq: "(x::int) AND - 4096 = x - x mod 4096"
  using align_down_eq [of x] by simp

lemma page_align_eq: "page_align x = x - x mod 0x1000"
  using align_down_eq [of x] by (simp add: page_align_def PAGE_SIZE_def)

lemma find_upper_boundary_unfold:
  "find_upper_boundary m a n =
     (if n = 0 then a else if m a then find_upper_boundary m (a + PAGE_SIZE) (n - 1) else a)"
  by (cases n) simp_all

lemma find_upper_boundary_ge: "a \<le> find_upper_boundary m a n"
proof (induction n arbitrary: a)
  case 0
  then show ?case by simp
next
  case (Suc n)
  have "a + PAGE_SIZE \<le> find_upper_boundary m (a + PAGE_SIZE) n" by (rule Suc.IH)
  then show ?case by (simp add: PAGE_SIZE_def)
qed

lemma find_upper_boundary_mapped:
  assumes "m a" and "0 < n"
  shows "a + PAGE_SIZE \<le> find_upper_boundary m a n"
proof (cases n)
  case 0
  then show ?thesis using assms(2) by simp
next
  case (Suc k)
  then show ?thesis using assms(1) find_upper_boundary_ge [of "a + PAGE_SIZE" m k] by simp
qed

lemma find_upper_stack_boundary_ge:
  assumes "linux e \<longrightarrow> mapped e (page_align sp)"
  shows "page_align sp + PAGE_SIZE \<le> find_upper_stack_boundary e sp 1024"
  using assms find_upper_boundary_mapped [of "mapped e" "page_align sp" 1024]
  by (auto simp add: find_upper_stack_boundary_def Let_def)

lemma update_thread_same:
  assumes "dict_get (stacks s) t = Some p"
    and "sp_of e t = Inr (Some sp)"
    and "vaddr p = (sp AND NOT 0xFFF) - 0x1000"
  shows "\<exists>p'. dict_get (stacks (snd (update_thread e t s))) t = Some p'
           \<and> vaddr p' = vaddr p \<and> memsz p' = memsz p"
  using assms
  by (cases t) (auto simp add: update_thread_def Let_def dict_get_dict_set
      split: sum.splits option.splits)

lemma find_in_some:
  assumes "p \<in> set ps" and "page_contains p a"
  shows "\<exists>q. find_in ps a = Some q \<and> page_contains q a"
  using assms by (induction ps) auto

lemma dict_get_values: "dict_get kvs k = Some p \<Longrightarrow> p \<in> set (dict_values kvs)"
  by (auto simp add: dict_get_def dict_values_def dest!: map_of_SomeD intro: rev_image_eqI)

lemma update_thread_bounds:
  assumes "sp_of e k = Inr (Some sp)"
    and "dict_get (stacks s) k = None
         \<or> (\<exists>p. dict_get (stacks s) k = Some p \<and> vaddr p = (sp AND NOT 0xFFF) - 0x1000
                \<and> vaddr p + memsz p = find_upper_stack_boundary e sp 1024)"
  shows "dict_get (stacks (snd (update_thread e t s))) k = None
         \<or> (\<exists>p. dict_get (stacks (snd (update_thread e t s))) k = Some p
                \<and> vaddr p = (sp AND NOT 0xFFF) - 0x1000
                \<and> vaddr p + memsz p = find_upper_stack_boundary e sp 1024)"
proof (cases "k = t")
  case False
  then show ?thesis using assms(2) by (simp add: update_thread_other)
next
  case True
  show ?thesis
  proof (cases "dict_get (stacks s) t")
    case None
    show ?thesis
    proof (cases "dict_get (stacks (snd (update_thread e t s))) t")
      case (Some p)
      from update_thread_new [OF None Some] assms(1) True
      have "vaddr p = (sp AND NOT 0xFFF) - 0x1000
          \<and> vaddr p + memsz p = find_upper_stack_boundary e sp 1024"
        by auto
      then show ?thesis using True Some by simp
    qed (simp add: True)
  next
    case (Some q)
    then have q: "vaddr q = (sp AND NOT 0xFFF) - 0x1000"
        "vaddr q + memsz q = find_upper_stack_boundary e sp 1024"
      using assms(2) True by auto
    from update_thread_same [OF Some _ q(1), of e] assms(1) True q
    show ?thesis by auto
  qed
qed

text \<open>
  Claim C10, as amended. Let \<^verbatim>\<open>update\<close> create a Page for a thread that had no entry, from
  the stack pointer \<open>sp\<close>, and let the page that holds \<open>sp\<close> be backed by valid memory
  whenever the target has the Linux ABI. Then the lower bound of the Page is one page plus
  the alignment remainder below \<open>sp\<close>, its upper bound is the result of
  \<^verbatim>\<open>find_upper_stack_boundary\<close> and lies at least one page above the page-aligned \<open>sp\<close>, the
  Page contains \<open>sp\<close>, and \<^verbatim>\<open>find(sp)\<close> right after the update returns a Page that
  contains \<open>sp\<close>.
\<close>

theorem update_new_page_contains_sp:
  assumes "dict_get (stacks s) t = None"
    and "dict_get (stacks (snd (update e s))) t = Some p"
    and "sp_of e t = Inr (Some sp)"
    and "linux e \<longrightarrow> mapped e (page_align sp)"
  shows "page_start p = sp - sp mod 0x1000 - 0x1000
       \<and> page_end p = find_upper_stack_boundary e sp 1024
       \<and> page_align sp + PAGE_SIZE \<le> page_end p
       \<and> page_contains p sp
       \<and> (\<exists>q. find e (snd (update e s)) sp = (Inr (Some q), snd (update e s))
               \<and> page_contains q sp)"
proof -
  have "dict_get (stacks (snd (update e s))) t = None
         \<or> (\<exists>p. dict_get (stacks (snd (update e s))) t = Some p
                \<and> vaddr p = (sp AND NOT 0xFFF) - 0x1000
                \<and> vaddr p + memsz p = find_upper_stack_boundary e sp 1024)"
    by (rule update_invariant
        [where P = "\<lambda>st. dict_get st t = None
           \<or> (\<exists>p. dict_get st t = Some p \<and> vaddr p = (sp AND NOT 0xFFF) - 0x1000
                  \<and> vaddr p + memsz p = find_upper_stack_boundary e sp 1024)"])
      (use assms(1) update_thread_bounds [OF assms(3)] in auto)
  then have lo: "vaddr p = (sp AND NOT 0xFFF) - 0x1000"
    and hi: "vaddr p + memsz p = find_upper_stack_boundary e sp 1024"
    using assms(2) by auto
  have start: "page_start p = sp - sp mod 0x1000 - 0x1000"
    using lo by (simp add: page_start_def align_down_minus_eq)
  have stop: "page_end p = find_upper_stack_boundary e sp 1024"
    using hi by (simp add: page_end_def)
  have above: "page_align sp + PAGE_SIZE \<le> page_end p"
    unfolding stop by (rule find_upper_stack_boundary_ge [OF assms(4)])
  have above': "sp - sp mod 0x1000 + 0x1000 \<le> page_end p"
    using above by (simp add: page_align_eq PAGE_SIZE_def)
  have "page_start p \<le> sp"
    using start pos_mod_sign [of "0x1000" sp] by linarith
  moreover have "sp < page_end p"
    using above' pos_mod_bound [of "0x1000" sp] by linarith
  ultimately have inside: "page_contains p sp"
    by (simp add: page_contains_def)
  have "stacks (snd (update e s)) \<noteq> []"
    using assms(2) by (auto simp add: dict_get_def)
  moreover from find_in_some [OF dict_get_values [OF assms(2)] inside]
  obtain q where "find_in (dict_values (stacks (snd (update e s)))) sp = Some q"
    "page_contains q sp" by blast
  ultimately have "\<exists>q. find e (snd (update e s)) sp = (Inr (Some q), snd (update e s))
               \<and> page_contains q sp"
    by (simp add: find_def)
  with start stop above inside show ?thesis by blast
qed

theorem update_new_page_contains_sp_witness:
  "dict_get (stacks demo_state) leader = None
   \<and> dict_get (stacks (snd (update apart_env demo_state))) leader
       = Some \<lparr>vaddr = 0x7ffd0000, memsz = 0x4000, flags = 7, offset = 0,
               objfile = Some ''[stack]''\<rparr>
   \<and> sp_of apart_env leader = Inr (Some 0x7ffd1234)
   \<and> linux apart_env \<and> mapped apart_env (page_align 0x7ffd1234)
   \<and> page_contains \<lparr>vaddr = 0x7ffd0000, memsz = 0x4000, flags = 7, offset = 0,
                     objfile = Some ''[stack]''\<rparr> 0x7ffd1234"
proof -
  let ?p = "\<lparr>vaddr = 0x7ffd0000, memsz = 0x4000, flags = 7, offset = 0,
             objfile = Some ''[stack]''\<rparr>"
  have h1: "dict_get (stacks demo_state) leader = None"
    by (simp add: demo_state_def dict_get_def)
  have h2: "dict_get (stacks (snd (update apart_env demo_state))) leader = Some ?p"
    by (simp add: eval_update apart_env_def demo_env_def demo_state_def
        find_upper_boundary_unfold)
  have h3: "sp_of apart_env leader = Inr (Some 0x7ffd1234)"
    by (simp add: apart_env_def)
  have m: "linux apart_env \<and> mapped apart_env (page_align 0x7ffd1234)"
    by (simp add: apart_env_def demo_env_def page_align_def PAGE_SIZE_def)
  then have h4: "linux apart_env \<longrightarrow> mapped apart_env (page_align 0x7ffd1234)"
    by simp
  from update_new_page_contains_sp [OF h1 h2 h3 h4]
  have "page_contains ?p 0x7ffd1234" by blast
  with h1 h2 h3 m show ?thesis by blast
qed

text \<open>
  The claim as stated fails on a Linux target when the page that holds the stack pointer
  is not backed by valid memory: the probe stops at once, the upper bound is the
  page-aligned stack pointer itself, the new Page ends below the stack pointer, and
  \<^verbatim>\<open>find(sp)\<close> returns \<^verbatim>\<open>None\<close>.
\<close>

theorem update_unmapped_sp_counterexample:
  "dict_get (stacks demo_state) leader = None
   \<and> sp_of unmapped_env leader = Inr (Some 0x7ffd1234)
   \<and> dict_get (stacks (snd (update unmapped_env demo_state))) leader
       = Some \<lparr>vaddr = 0x7ffd0000, memsz = 0x1000, flags = 6, offset = 0,
               objfile = Some ''[stack]''\<rparr>
   \<and> \<not> page_contains \<lparr>vaddr = 0x7ffd0000, memsz = 0x1000, flags = 6, offset = 0,
                       objfile = Some ''[stack]''\<rparr> 0x7ffd1234
   \<and> find_upper_stack_boundary unmapped_env 0x7ffd1234 1024 = page_align 0x7ffd1234
   \<and> fst (find unmapped_env (snd (update unmapped_env demo_state)) 0x7ffd1234) = Inr None"
  by (simp add: eval_update unmapped_env_def demo_env_def demo_state_def
      find_upper_boundary_unfold find_def dict_values_def page_contains_def page_start_def
      page_end_def)

subsection \<open>Looking up an address\<close>

lemma find_in_SomeD:
  "find_in ps a = Some p \<Longrightarrow> p \<in> set ps \<and> page_contains p a"
  by (induction ps) (auto split: if_splits)

lemma find_in_None_iff:
  "find_in ps a = None \<longleftrightarrow> (\<forall>p\<in>set ps. \<not> page_contains p a)"
  by (induction ps) auto

lemma find_in_first:
  "find_in ps a = Some p \<longleftrightarrow>
     (\<exists>ys zs. ps = ys @ p # zs \<and> page_contains p a \<and> (\<forall>q\<in>set ys. \<not> page_contains q a))"
proof (induction ps)
  case Nil
  then show ?case by simp
next
  case (Cons x xs)
  show ?case
  proof (cases "page_contains x a")
    case True
    have "(\<exists>ys zs. x # xs = ys @ p # zs \<and> page_contains p a
            \<and> (\<forall>q\<in>set ys. \<not> page_contains q a)) \<longleftrightarrow> x = p"
    proof
      assume "\<exists>ys zs. x # xs = ys @ p # zs \<and> page_contains p a
            \<and> (\<forall>q\<in>set ys. \<not> page_contains q a)"
      then obtain ys zs where h: "x # xs = ys @ p # zs" "\<forall>q\<in>set ys. \<not> page_contains q a"
        by blast
      show "x = p"
      proof (cases ys)
        case Nil
        then show ?thesis using h(1) by simp
      next
        case (Cons y ys')
        then have "x \<in> set ys" using h(1) by simp
        then show ?thesis using h(2) True by blast
      qed
    next
      assume "x = p"
      then have "x # xs = [] @ p # xs \<and> page_contains p a \<and> (\<forall>q\<in>set []. \<not> page_contains q a)"
        using True by simp
      then show "\<exists>ys zs. x # xs = ys @ p # zs \<and> page_contains p a
            \<and> (\<forall>q\<in>set ys. \<not> page_contains q a)"
        by blast
    qed
    then show ?thesis using True by auto
  next
    case False
    have "(\<exists>ys zs. x # xs = ys @ p # zs \<and> page_contains p a
            \<and> (\<forall>q\<in>set ys. \<not> page_contains q a))
        \<longleftrightarrow> (\<exists>ys zs. xs = ys @ p # zs \<and> page_contains p a
            \<and> (\<forall>q\<in>set ys. \<not> page_contains q a))"
    proof
      assume "\<exists>ys zs. x # xs = ys @ p # zs \<and> page_contains p a
            \<and> (\<forall>q\<in>set ys. \<not> page_contains q a)"
      then obtain ys zs where h: "x # xs = ys @ p # zs" "page_contains p a"
          "\<forall>q\<in>set ys. \<not> page_contains q a"
        by blast
      show "\<exists>ys zs. xs = ys @ p # zs \<and> page_contains p a \<and> (\<forall>q\<in>set ys. \<not> page_contains q a)"
      proof (cases ys)
        case Nil
        then show ?thesis using h False by simp
      next
        case (Cons y ys')
        then have "xs = ys' @ p # zs \<and> (\<forall>q\<in>set ys'. \<not> page_contains q a)"
          using h by simp
        then show ?thesis using h(2) by blast
      qed
    next
      assume "\<exists>ys zs. xs = ys @ p # zs \<and> page_contains p a \<and> (\<forall>q\<in>set ys. \<not> page_contains q a)"
      then obtain ys zs where h: "xs = ys @ p # zs" "page_contains p a"
          "\<forall>q\<in>set ys. \<not> page_contains q a"
        by blast
      then have "x # xs = (x # ys) @ p # zs \<and> page_contains p a
          \<and> (\<forall>q\<in>set (x # ys). \<not> page_contains q a)"
        using False by simp
      then show "\<exists>ys zs. x # xs = ys @ p # zs \<and> page_contains p a
            \<and> (\<forall>q\<in>set ys. \<not> page_contains q a)"
        by blast
    qed
    then show ?thesis using False Cons.IH by simp
  qed
qed

lemma contains_both_overlap:
  "page_contains p a \<Longrightarrow> page_contains q a \<Longrightarrow> pages_overlap p q"
  by (auto simp add: page_contains_def pages_overlap_def)

lemma find_in_unique:
  assumes "\<forall>p\<in>set ps. \<forall>q\<in>set ps. p \<noteq> q \<longrightarrow> \<not> pages_overlap p q"
  shows "find_in ps a = Some p \<longleftrightarrow> p \<in> set ps \<and> page_contains p a"
proof
  assume "find_in ps a = Some p"
  then show "p \<in> set ps \<and> page_contains p a" by (rule find_in_SomeD)
next
  assume h: "p \<in> set ps \<and> page_contains p a"
  then obtain q where q: "find_in ps a = Some q" "page_contains q a"
    using find_in_some by blast
  then have "q \<in> set ps" using find_in_SomeD by blast
  then have "q = p" using assms h q(2) contains_both_overlap by blast
  then show "find_in ps a = Some p" using q(1) by simp
qed

text \<open>
  Claim C2, as amended. When \<^verbatim>\<open>find(addr)\<close> returns (after the update it calls first if no
  ranges are known), every Page it returns is tracked and contains \<open>addr\<close>; it returns
  \<^verbatim>\<open>None\<close> exactly when no tracked Page contains \<open>addr\<close>; the Page it returns is the first
  one, in the insertion order of the dictionary, that contains \<open>addr\<close>; and when no two
  different tracked Pages overlap, it returns a Page \<open>p\<close> exactly when \<open>p\<close> is tracked and
  \<open>p.start \<le> addr < p.start + p.size\<close>.
\<close>

theorem find_returns_first_containing:
  assumes "find e s a = (Inr r, s')"
  shows "s' = (if stacks s = [] then snd (cached_update e s) else s)
       \<and> (\<forall>p. r = Some p \<longrightarrow> p \<in> set (dict_values (stacks s')) \<and> page_contains p a)
       \<and> (r = None \<longleftrightarrow> (\<forall>p\<in>set (dict_values (stacks s')). \<not> page_contains p a))
       \<and> (\<forall>p. r = Some p \<longleftrightarrow>
             (\<exists>ys zs. dict_values (stacks s') = ys @ p # zs \<and> page_contains p a
                \<and> (\<forall>q\<in>set ys. \<not> page_contains q a)))
       \<and> ((\<forall>p\<in>set (dict_values (stacks s')). \<forall>q\<in>set (dict_values (stacks s')).
               p \<noteq> q \<longrightarrow> \<not> pages_overlap p q)
           \<longrightarrow> (\<forall>p. r = Some p \<longleftrightarrow> p \<in> set (dict_values (stacks s')) \<and> page_contains p a))"
proof -
  have s': "s' = (if stacks s = [] then snd (cached_update e s) else s)"
    and r: "r = find_in (dict_values (stacks s')) a"
    using assms by (auto simp add: find_def split: if_splits prod.splits option.splits)
  show ?thesis
    unfolding r
    using s' find_in_SomeD [of "dict_values (stacks s')" a]
      find_in_None_iff [of "dict_values (stacks s')" a]
      find_in_first [of "dict_values (stacks s')" a]
      find_in_unique [of "dict_values (stacks s')" a]
    by (intro conjI) blast+
qed

lemma apart_update:
  "update apart_env demo_state =
     (None, \<lparr>stacks = [(leader, \<lparr>vaddr = 0x7ffd0000, memsz = 0x4000, flags = 7, offset = 0,
                                  objfile = Some ''[stack]''\<rparr>),
                        (worker, \<lparr>vaddr = 0x7ffa1000, memsz = 0x1000, flags = 7, offset = 0,
                                  objfile = Some ''[stack]''\<rparr>)],
             nx = False, selected = Some leader, update_cached = False\<rparr>)"
  by (simp add: eval_update apart_env_def demo_env_def demo_state_def find_upper_boundary_unfold)

lemma demo_state_empty: "stacks demo_state = []"
  by (simp add: demo_state_def)

lemma demo_state_fresh: "\<not> update_cached demo_state"
  by (simp add: demo_state_def)

theorem find_returns_first_containing_witness:
  "find apart_env demo_state 0x7ffd1234 =
     (Inr (Some \<lparr>vaddr = 0x7ffd0000, memsz = 0x4000, flags = 7, offset = 0,
                  objfile = Some ''[stack]''\<rparr>),
      snd (cached_update apart_env demo_state))
   \<and> dict_values (stacks (snd (cached_update apart_env demo_state))) =
       [\<lparr>vaddr = 0x7ffd0000, memsz = 0x4000, flags = 7, offset = 0, objfile = Some ''[stack]''\<rparr>,
        \<lparr>vaddr = 0x7ffa1000, memsz = 0x1000, flags = 7, offset = 0, objfile = Some ''[stack]''\<rparr>]
   \<and> \<not> pages_overlap
         \<lparr>vaddr = 0x7ffd0000, memsz = 0x4000, flags = 7, offset = 0, objfile = Some ''[stack]''\<rparr>
         \<lparr>vaddr = 0x7ffa1000, memsz = 0x1000, flags = 7, offset = 0, objfile = Some ''[stack]''\<rparr>
   \<and> \<not> pages_overlap
         \<lparr>vaddr = 0x7ffa1000, memsz = 0x1000, flags = 7, offset = 0, objfile = Some ''[stack]''\<rparr>
         \<lparr>vaddr = 0x7ffd0000, memsz = 0x4000, flags = 7, offset = 0, objfile = Some ''[stack]''\<rparr>
   \<and> page_contains
         \<lparr>vaddr = 0x7ffd0000, memsz = 0x4000, flags = 7, offset = 0, objfile = Some ''[stack]''\<rparr>
         0x7ffd1234"
proof -
  let ?p = "\<lparr>vaddr = 0x7ffd0000, memsz = 0x4000, flags = 7, offset = 0,
             objfile = Some ''[stack]''\<rparr>"
  let ?q = "\<lparr>vaddr = 0x7ffa1000, memsz = 0x1000, flags = 7, offset = 0,
             objfile = Some ''[stack]''\<rparr>"
  let ?s' = "snd (cached_update apart_env demo_state)"
  have f: "find apart_env demo_state 0x7ffd1234 = (Inr (Some ?p), ?s')"
    by (simp add: find_def cached_update_def apart_update demo_state_empty demo_state_fresh
        dict_values_def page_contains_def page_start_def page_end_def)
  have v: "dict_values (stacks ?s') = [?p, ?q]"
    by (simp add: cached_update_def apart_update demo_state_fresh dict_values_def)
  have o: "\<not> pages_overlap ?p ?q" "\<not> pages_overlap ?q ?p"
    by (simp_all add: pages_overlap_def page_start_def page_end_def)
  have d: "\<forall>p\<in>set (dict_values (stacks ?s')). \<forall>q\<in>set (dict_values (stacks ?s')).
      p \<noteq> q \<longrightarrow> \<not> pages_overlap p q"
    unfolding v using o by auto
  note t = find_returns_first_containing [OF f]
  from t d have "\<forall>p. Some ?p = Some p \<longleftrightarrow>
      p \<in> set (dict_values (stacks ?s')) \<and> page_contains p 0x7ffd1234"
    by blast
  then have c: "page_contains ?p 0x7ffd1234" by blast
  from f v o c show ?thesis by blast
qed

text \<open>
  The claim as stated fails: nothing keeps the Pages of two threads apart. On a fresh
  session of the example process, whose two stack pointers lie one page apart,
  \<^verbatim>\<open>find(0x7ffd1800)\<close> records two Pages that both contain the address and returns the
  leader's, so the other thread's Page contains the address without being returned.
\<close>

theorem find_overlapping_counterexample:
  "find demo_env demo_state 0x7ffd1800 =
     (Inr (Some \<lparr>vaddr = 0x7ffd0000, memsz = 0x2000, flags = 6, offset = 0,
                  objfile = Some ''[stack]''\<rparr>),
      \<lparr>stacks = [(leader, \<lparr>vaddr = 0x7ffd0000, memsz = 0x2000, flags = 6, offset = 0,
                             objfile = Some ''[stack]''\<rparr>),
                  (worker, \<lparr>vaddr = 0x7ffd1000, memsz = 0x2000, flags = 6, offset = 0,
                             objfile = Some ''[stack]''\<rparr>)],
        nx = True, selected = Some leader, update_cached = True\<rparr>)
   \<and> leader \<noteq> worker
   \<and> page_contains \<lparr>vaddr = 0x7ffd0000, memsz = 0x2000, flags = 6, offset = 0,
                     objfile = Some ''[stack]''\<rparr> 0x7ffd1800
   \<and> page_contains \<lparr>vaddr = 0x7ffd1000, memsz = 0x2000, flags = 6, offset = 0,
                     objfile = Some ''[stack]''\<rparr> 0x7ffd1800
   \<and> \<lparr>vaddr = 0x7ffd1000, memsz = 0x2000, flags = 6, offset = 0, objfile = Some ''[stack]''\<rparr>
       \<noteq> \<lparr>vaddr = 0x7ffd0000, memsz = (0x2000::int), flags = (6::int), offset = (0::int),
            objfile = Some ''[stack]''\<rparr>"
  by (simp add: find_def cached_update_def demo_update demo_state_empty demo_state_fresh
      dict_values_def page_contains_def page_start_def page_end_def leader_def worker_def)

subsection \<open>Looking up an address after clearing\<close>





subsection \<open>The label of a Page\<close>

text \<open>
  Claim C8 does not hold of the code. \<^verbatim>\<open>update\<close> creates every Page with the label
  \<^verbatim>\<open>[stack]\<close>, also for a thread that is not the process leader; the branch that would
  label such a thread's Page \<^verbatim>\<open>[stack:<tid>]\<close> runs only for an entry whose label is
  \<^verbatim>\<open>None\<close>, which \<^verbatim>\<open>update\<close> never stores. Evaluated on the example process: the thread
  (100, 101, 2) gets a Page labelled \<^verbatim>\<open>[stack]\<close>, whereas an entry with an unset label is
  relabelled \<^verbatim>\<open>[stack:101]\<close>.
\<close>

theorem update_labels_worker_stack:
  "worker = (100, 101, 2)
   \<and> dict_get (stacks demo_state) worker = None
   \<and> dict_get (stacks (snd (update demo_env demo_state))) worker
       = Some \<lparr>vaddr = 0x7ffd1000, memsz = 0x2000, flags = 6, offset = 0,
               objfile = Some ''[stack]''\<rparr>
   \<and> dict_get (stacks (snd (update demo_env
         \<lparr>stacks = [(worker, \<lparr>vaddr = 0x7ffd1000, memsz = 0x2000, flags = 6, offset = 0,
                                objfile = None\<rparr>)],
           nx = True, selected = Some leader, update_cached = False\<rparr>))) worker
       = Some \<lparr>vaddr = 0x7ffd1000, memsz = 0x2000, flags = 6, offset = 0,
               objfile = Some ''[stack:101]''\<rparr>"
  by (simp add: eval_update demo_env_def demo_state_def format_int_def digit_char_def)

subsection \<open>The canary command\<close>

text \<open>The loop of \<^verbatim>\<open>canary\<close> computes what the display rule of the specification says.\<close>

lemma canary_threads_spec:
  "canary_threads e show_all pk ts (f, h, out) =
     (f \<or> (\<exists>(t, pg)\<in>set ts. search e pk (page_start pg) (page_end pg) \<noteq> []),
      h \<or> (\<not> show_all \<and> (\<exists>(t, pg)\<in>set ts. 2 < length (search e pk (page_start pg) (page_end pg)))),
      out @ concat (map (\<lambda>(t, pg).
          thread_output_spec show_all t (search e pk (page_start pg) (page_end pg))) ts))"
proof (induction ts arbitrary: f h out)
  case Nil
  then show ?case by simp
next
  case (Cons x ts)
  obtain t pg where x: "x = (t, pg)" by (cases x)
  show ?case
  proof (cases "search e pk (page_start pg) (page_end pg) = []")
    case True
    then show ?thesis
      unfolding x by (simp add: Cons.IH thread_output_spec_def)
  next
    case False
    then show ?thesis
      unfolding x
      by (auto simp add: Cons.IH thread_output_spec_def displayed_spec_def Let_def min_def)
  qed
qed

text \<open>
  Claim C5 does not hold of the code. What the claim says about skipped threads, the
  display limit and the two flags is what the loop of \<^verbatim>\<open>canary\<close> computes once it has a
  thread map, as the lemma above shows. But \<^verbatim>\<open>canary\<close> takes the map from
  \<^verbatim>\<open>pwndbg.gdblib.stack.get()\<close>, a name that \<^verbatim>\<open>stack.py\<close> does not define: whenever the
  canary value is available the command prints its two notices and raises
  \<^verbatim>\<open>AttributeError\<close>, with or without \<open>showAll\<close>, before any stack is searched.
\<close>

theorem canary_raises_before_search:
  "canary_value demo_env = Inr (Some 0x4141414141414100, Some 0x7ffd1f00)
   \<and> canary demo_env demo_state False =
       Inl (AttributeError,
            [Notice_at_random 0x7ffd1f00, Notice_canary 0x4141414141414100])
   \<and> canary demo_env demo_state True =
       Inl (AttributeError,
            [Notice_at_random 0x7ffd1f00, Notice_canary 0x4141414141414100])"
proof -
  have h: "canary_value demo_env = Inr (Some 0x4141414141414100, Some 0x7ffd1f00)"
    by (simp add: canary_value_def demo_env_def ptrmask_def)
  then show ?thesis
    by (simp add: canary_def stack_get_def)
qed

end
